theory Spec2Isabelle
  imports Main "HOL-Library.AList"
begin

section \<open>The loading cache of yaloc (src/LoadingCache.ts)\<close>

subsection \<open>Values, options and the state of a cache\<close>

text \<open>
  The class is generic in the value type \<open>V\<close>, and its code tests values for truthiness
  (\<open>if (existingValue)\<close>, \<open>if (value)\<close>, \<open>oldValue && onRemove\<close>). The values a cache can
  hold are therefore modelled as JavaScript values with their truthiness. Numbers are
  integers here (so the only falsy number is 0), objects are opaque references.
\<close>

datatype jsval = JUndefined | JNull | JBool bool | JNum int | JStr string | JObj nat

fun truthy :: "jsval \<Rightarrow> bool" where
  "truthy JUndefined = False"
| "truthy JNull = False"
| "truthy (JBool b) = b"
| "truthy (JNum n) = (n \<noteq> 0)"
| "truthy (JStr s) = (s \<noteq> [])"
| "truthy (JObj r) = True"

datatype RemovalCause = EXPLICIT_DELETE | EXPIRED | REPLACED

text \<open>A failed load: the loader threw, or the promise it returned was rejected.\<close>

datatype error = LoaderError string

text \<open>
  \<open>LoadingCacheOptions\<close>. An absent duration is \<open>None\<close>; durations are whole, non-negative
  numbers of time units. The loader is called with the key; since a JavaScript closure may
  keep state of its own (the counting loader of the tests), its result may also depend on
  the keys it was called with before, which are passed as its first argument. The listener
  \<open>onRemove\<close> is an observer: the field says whether one is installed, and each of its calls
  is recorded in the state (\<open>removed\<close> below).
\<close>

record 'k LoadingCacheOptions =
  expireAfterWrite :: "nat option"
  expireAfterAccess :: "nat option"
  refreshAfterWrite :: "nat option"
  onRemove :: bool
  loader :: "'k list \<Rightarrow> 'k \<Rightarrow> error + jsval"

text \<open>
  The three timer registries of the class hold one role each. The role of a timer decides
  its callback: the two expiry roles call \<open>expire(key)\<close> once (\<open>setTimeout\<close>), the refresh
  role calls \<open>load(key)\<close> repeatedly (\<open>setInterval\<close>).
\<close>

datatype role = AccessExpiry | WriteExpiry | RefreshWrite

text \<open>A timer armed in the host: its handle, the time it fires next, its delay, and the
  key and role of the callback it was created with.\<close>

record 'k timer =
  tm_handle :: nat
  tm_due :: nat
  tm_delay :: nat
  tm_key :: 'k
  tm_role :: role

text \<open>One call of the removal listener: its two arguments, and the table as the listener
  finds it when it runs.\<close>

record 'k removal =
  rm_entry :: "'k \<times> jsval"
  rm_cause :: RemovalCause
  rm_table :: "('k \<times> jsval) list"

text \<open>
  The state: the four maps of the class (a JavaScript \<open>Map\<close> keeps its entries in
  insertion order, so each is an association list), the part of the host the class uses
  (the clock, the next timer handle, the armed timers in the order of their creation), and
  what the collaborators have seen (the keys the loader was called with, the calls of
  the removal listener).
\<close>

record 'k LoadingCache =
  cache :: "('k \<times> jsval) list"
  afterAccessExpirationTimers :: "('k \<times> nat) list"
  afterWriteExpirationTimers :: "('k \<times> nat) list"
  refreshAfterWriteTimers :: "('k \<times> nat) list"
  clock :: nat
  next_handle :: nat
  armed :: "'k timer list"
  loader_calls :: "'k list"
  removed :: "'k removal list"

definition new_cache :: "'k LoadingCache" where
  "new_cache = \<lparr>cache = [], afterAccessExpirationTimers = [],
     afterWriteExpirationTimers = [], refreshAfterWriteTimers = [],
     clock = 0, next_handle = 1, armed = [], loader_calls = [], removed = []\<rparr>"

subsection \<open>The host: Map lookup and timers\<close>

text \<open>\<open>Map.prototype.get\<close>: the value stored, \<open>undefined\<close> for a key that has none.\<close>

definition map_get :: "('k \<times> jsval) list \<Rightarrow> 'k \<Rightarrow> jsval" where
  "map_get m key = (case map_of m key of None \<Rightarrow> JUndefined | Some v \<Rightarrow> v)"

text \<open>
  \<open>setTimeout\<close> and \<open>setInterval\<close>: a new timer with a fresh handle, due after the delay.
  Handles are truthy (positive numbers in a browser, objects in Node). Time is counted in
  milliseconds, and the host keeps a delay only if it lies between 1 and \<open>TIMEOUT_MAX\<close>
  (\<open>2\<^sup>3\<^sup>1 - 1\<close>): any other delay is set to 1.
\<close>

definition TIMEOUT_MAX :: nat where
  "TIMEOUT_MAX = 2147483647"

definition timer_delay :: "nat \<Rightarrow> nat" where
  "timer_delay delay = (if 1 \<le> delay \<and> delay \<le> TIMEOUT_MAX then delay else 1)"

definition setTimer :: "role \<Rightarrow> 'k \<Rightarrow> nat \<Rightarrow> 'k LoadingCache \<Rightarrow> nat \<times> 'k LoadingCache" where
  "setTimer r key delay s =
     (next_handle s,
      s\<lparr>armed := armed s @ [\<lparr>tm_handle = next_handle s, tm_due = clock s + timer_delay delay,
                               tm_delay = timer_delay delay, tm_key = key, tm_role = r\<rparr>],
        next_handle := Suc (next_handle s)\<rparr>)"

text \<open>\<open>clearTimeout\<close> and \<open>clearInterval\<close>: the timer with this handle, if still armed, is
  cancelled.\<close>

definition clearTimer :: "nat \<Rightarrow> 'k LoadingCache \<Rightarrow> 'k LoadingCache" where
  "clearTimer h s = s\<lparr>armed := filter (\<lambda>t. tm_handle t \<noteq> h) (armed s)\<rparr>"

subsection \<open>The timer registries\<close>

definition registry :: "role \<Rightarrow> 'k LoadingCache \<Rightarrow> ('k \<times> nat) list" where
  "registry r s = (case r of AccessExpiry \<Rightarrow> afterAccessExpirationTimers s
                   | WriteExpiry \<Rightarrow> afterWriteExpirationTimers s
                   | RefreshWrite \<Rightarrow> refreshAfterWriteTimers s)"

definition registry_update ::
  "role \<Rightarrow> (('k \<times> nat) list \<Rightarrow> ('k \<times> nat) list) \<Rightarrow> 'k LoadingCache \<Rightarrow> 'k LoadingCache" where
  "registry_update r f s =
     (case r of
        AccessExpiry \<Rightarrow> s\<lparr>afterAccessExpirationTimers := f (afterAccessExpirationTimers s)\<rparr>
      | WriteExpiry \<Rightarrow> s\<lparr>afterWriteExpirationTimers := f (afterWriteExpirationTimers s)\<rparr>
      | RefreshWrite \<Rightarrow> s\<lparr>refreshAfterWriteTimers := f (refreshAfterWriteTimers s)\<rparr>)"

definition duration :: "'k LoadingCacheOptions \<Rightarrow> role \<Rightarrow> nat option" where
  "duration opts r = (case r of AccessExpiry \<Rightarrow> expireAfterAccess opts
                      | WriteExpiry \<Rightarrow> expireAfterWrite opts
                      | RefreshWrite \<Rightarrow> refreshAfterWrite opts)"

text \<open>
  The three methods \<open>maybeSetAfterAccessExpirationTimer\<close>,
  \<open>maybeSetAfterWriteExpirationTimer\<close> and \<open>maybeSetRefreshAfterWriteTimer\<close> have one body,
  and differ in the option they read, the registry they use and the callback of the timer:

  \<^verbatim>\<open>if (duration) {
    const existingTimer = registry.get(key);
    if (existingTimer) { clearTimeout(existingTimer); }
    const timer = setTimeout(callback, duration);
    registry.set(key, timer);
  }\<close>

  The test \<open>if (duration)\<close> fails for an absent duration and for 0.
\<close>

definition maybeSetTimer ::
  "role \<Rightarrow> 'k LoadingCacheOptions \<Rightarrow> 'k \<Rightarrow> 'k LoadingCache \<Rightarrow> 'k LoadingCache" where
  "maybeSetTimer r opts key s =
     (case duration opts r of
        None \<Rightarrow> s
      | Some d \<Rightarrow>
          if d = 0 then s
          else
            let s1 = (case map_of (registry r s) key of
                        None \<Rightarrow> s
                      | Some existingTimer \<Rightarrow> clearTimer existingTimer s);
                (timer, s2) = setTimer r key d s1
            in registry_update r (AList.update key timer) s2)"

definition maybeSetAfterAccessExpirationTimer ::
  "'k LoadingCacheOptions \<Rightarrow> 'k \<Rightarrow> 'k LoadingCache \<Rightarrow> 'k LoadingCache" where
  "maybeSetAfterAccessExpirationTimer = maybeSetTimer AccessExpiry"

definition maybeSetAfterWriteExpirationTimer ::
  "'k LoadingCacheOptions \<Rightarrow> 'k \<Rightarrow> 'k LoadingCache \<Rightarrow> 'k LoadingCache" where
  "maybeSetAfterWriteExpirationTimer = maybeSetTimer WriteExpiry"

definition maybeSetRefreshAfterWriteTimer ::
  "'k LoadingCacheOptions \<Rightarrow> 'k \<Rightarrow> 'k LoadingCache \<Rightarrow> 'k LoadingCache" where
  "maybeSetRefreshAfterWriteTimer = maybeSetTimer RefreshWrite"

text \<open>\<open>clearTimers\<close> does the same for each registry in turn: a timer found for the key is
  cancelled and its row deleted.\<close>

definition clearTimerOf :: "role \<Rightarrow> 'k \<Rightarrow> 'k LoadingCache \<Rightarrow> 'k LoadingCache" where
  "clearTimerOf r key s =
     (case map_of (registry r s) key of
        None \<Rightarrow> s
      | Some t \<Rightarrow> registry_update r (AList.delete key) (clearTimer t s))"

definition clearTimers :: "'k \<Rightarrow> 'k LoadingCache \<Rightarrow> 'k LoadingCache" where
  "clearTimers key s =
     clearTimerOf RefreshWrite key (clearTimerOf WriteExpiry key (clearTimerOf AccessExpiry key s))"

subsection \<open>The methods of the class\<close>

definition notify :: "'k \<times> jsval \<Rightarrow> RemovalCause \<Rightarrow> 'k LoadingCache \<Rightarrow> 'k LoadingCache" where
  "notify entry cause s =
     s\<lparr>removed := removed s @ [\<lparr>rm_entry = entry, rm_cause = cause, rm_table = cache s\<rparr>]\<rparr>"

definition set_cache ::
  "'k LoadingCacheOptions \<Rightarrow> 'k \<Rightarrow> jsval \<Rightarrow> 'k LoadingCache \<Rightarrow> 'k LoadingCache" where
  "set_cache opts key value s =
     (let oldValue = map_get (cache s) key;
          s1 = s\<lparr>cache := AList.update key value (cache s)\<rparr>;
          s2 = (if truthy oldValue \<and> onRemove opts
                then notify (key, oldValue) REPLACED s1 else s1);
          s3 = maybeSetAfterWriteExpirationTimer opts key s2;
          s4 = maybeSetAfterAccessExpirationTimer opts key s3
      in maybeSetRefreshAfterWriteTimer opts key s4)"

definition removeWithCause ::
  "'k LoadingCacheOptions \<Rightarrow> 'k \<Rightarrow> RemovalCause \<Rightarrow> 'k LoadingCache \<Rightarrow> bool \<times> 'k LoadingCache" where
  "removeWithCause opts key cause s =
     (let value = map_get (cache s) key
      in if truthy value
         then
           let s1 = clearTimers key s;
               s2 = s1\<lparr>cache := AList.delete key (cache s1)\<rparr>;
               s3 = (if onRemove opts then notify (key, value) cause s2 else s2)
           in (True, s3)
         else (False, s))"

definition delete_cache :: "'k LoadingCacheOptions \<Rightarrow> 'k \<Rightarrow> 'k LoadingCache \<Rightarrow> bool \<times> 'k LoadingCache" where
  "delete_cache opts key s = removeWithCause opts key EXPLICIT_DELETE s"

definition has :: "'k \<Rightarrow> 'k LoadingCache \<Rightarrow> bool" where
  "has key s = (map_of (cache s) key \<noteq> None)"

definition clear :: "'k LoadingCache \<Rightarrow> 'k LoadingCache" where
  "clear s = s\<lparr>cache := []\<rparr>"

definition size_cache :: "'k LoadingCache \<Rightarrow> nat" where
  "size_cache s = length (cache s)"

definition expire :: "'k LoadingCacheOptions \<Rightarrow> 'k \<Rightarrow> 'k LoadingCache \<Rightarrow> 'k LoadingCache" where
  "expire opts key s = snd (removeWithCause opts key EXPIRED s)"

text \<open>
  \<open>load\<close> and \<open>get\<close> are asynchronous. They are modelled with the loader's result at hand
  and with no other operation of the cache running between the call of the loader and the
  continuation after \<open>await\<close>. A failed load rejects the promise of \<open>load\<close>, and with it
  that of \<open>get\<close>: the continuation does not run.
\<close>

definition load ::
  "'k LoadingCacheOptions \<Rightarrow> 'k \<Rightarrow> 'k LoadingCache \<Rightarrow> (error + jsval) \<times> 'k LoadingCache" where
  "load opts key s =
     (let s1 = s\<lparr>loader_calls := loader_calls s @ [key]\<rparr>
      in case loader opts (loader_calls s) key of
           Inl e \<Rightarrow> (Inl e, s1)
         | Inr value \<Rightarrow> (Inr value, set_cache opts key value s1))"

definition get ::
  "'k LoadingCacheOptions \<Rightarrow> 'k \<Rightarrow> 'k LoadingCache \<Rightarrow> (error + jsval) \<times> 'k LoadingCache" where
  "get opts key s =
     (let existingValue = map_get (cache s) key
      in if truthy existingValue
         then (Inr existingValue, maybeSetAfterAccessExpirationTimer opts key s)
         else
           (case load opts key s of
              (Inl e, s1) \<Rightarrow> (Inl e, s1)
            | (Inr value, s1) \<Rightarrow> (Inr value, maybeSetAfterAccessExpirationTimer opts key s1)))"

subsection \<open>Timers firing\<close>

text \<open>
  A timer that fires runs its callback: \<open>this.expire(key)\<close> for the two expiry roles, whose
  timer is then gone, \<open>this.load(key)\<close> for the refresh role, whose timer is due again one
  delay later. Nobody awaits the promise of a refresh, so a failed one is dropped.
\<close>

definition reschedule :: "nat \<Rightarrow> 'k timer \<Rightarrow> 'k timer" where
  "reschedule h u = (if tm_handle u = h then u\<lparr>tm_due := tm_due u + tm_delay u\<rparr> else u)"

definition fire :: "'k LoadingCacheOptions \<Rightarrow> 'k timer \<Rightarrow> 'k LoadingCache \<Rightarrow> 'k LoadingCache" where
  "fire opts t s =
     (case tm_role t of
        RefreshWrite \<Rightarrow>
          snd (load opts (tm_key t)
                 (s\<lparr>armed := map (reschedule (tm_handle t)) (armed s)\<rparr>))
      | _ \<Rightarrow> expire opts (tm_key t) (clearTimer (tm_handle t) s))"

text \<open>The timers that are due are run in the order of their creation; one that an earlier
  callback has cancelled in the meantime does not run.\<close>

fun run_due :: "'k LoadingCacheOptions \<Rightarrow> nat list \<Rightarrow> 'k LoadingCache \<Rightarrow> 'k LoadingCache" where
  "run_due opts [] s = s"
| "run_due opts (h # hs) s =
     run_due opts hs
       (case find (\<lambda>t. tm_handle t = h \<and> tm_due t \<le> clock s) (armed s) of
          None \<Rightarrow> s
        | Some t \<Rightarrow> fire opts t s)"

text \<open>One unit of time passes, and the timers due by then fire.\<close>

definition tick :: "'k LoadingCacheOptions \<Rightarrow> 'k LoadingCache \<Rightarrow> 'k LoadingCache" where
  "tick opts s =
     (let s1 = s\<lparr>clock := Suc (clock s)\<rparr>
      in run_due opts (map tm_handle (filter (\<lambda>t. tm_due t \<le> clock s1) (armed s1))) s1)"

primrec advance :: "'k LoadingCacheOptions \<Rightarrow> nat \<Rightarrow> 'k LoadingCache \<Rightarrow> 'k LoadingCache" where
  "advance opts 0 s = s"
| "advance opts (Suc n) s = advance opts n (tick opts s)"

subsection \<open>Histories of a cache\<close>

text \<open>
  What happens to a cache, one step after the other: the calls of a client, and \<open>Tick\<close> for
  one unit of time passing with the timers that fire in it. Every load completes within
  the step that starts it (the \<open>get\<close> of a client, or the refresh timer that fires), so no
  load is in flight between two steps; the continuation of a load that resolves later is
  the call of \<open>set\<close> it consists of, a step of its own. \<open>run\<close> applies a history to a new
  cache: the states \<open>run opts evs\<close> are the states a cache reaches with no load in flight.
\<close>

datatype 'k event = Get 'k | Set 'k jsval | Delete 'k | Clear | Tick

fun step :: "'k LoadingCacheOptions \<Rightarrow> 'k event \<Rightarrow> 'k LoadingCache \<Rightarrow> 'k LoadingCache" where
  "step opts (Get k) s = snd (get opts k s)"
| "step opts (Set k v) s = set_cache opts k v s"
| "step opts (Delete k) s = snd (delete_cache opts k s)"
| "step opts Clear s = clear s"
| "step opts Tick s = tick opts s"

definition run :: "'k LoadingCacheOptions \<Rightarrow> 'k event list \<Rightarrow> 'k LoadingCache" where
  "run opts evs = fold (step opts) evs new_cache"

subsection \<open>Invariants of the timers\<close>

text \<open>
  The armed timers and the registries agree: the armed timers stand in the order of their
  handles, which are older than the next one, every armed timer is registered under its
  key and role, an armed timer whose
  handle is registered belongs to that key and role, and registered handles are older than
  the next one. \<open>timers_of\<close> are the timers armed for a key and role.
\<close>

definition timers_ok :: "'k LoadingCache \<Rightarrow> bool" where
  "timers_ok s \<longleftrightarrow>
     sorted_wrt (<) (map tm_handle (armed s)) \<and>
     (\<forall>t \<in> set (armed s). tm_handle t < next_handle s \<and>
        map_of (registry (tm_role t) s) (tm_key t) = Some (tm_handle t)) \<and>
     (\<forall>t \<in> set (armed s). \<forall>r k.
        map_of (registry r s) k = Some (tm_handle t) \<longrightarrow> tm_key t = k \<and> tm_role t = r) \<and>
     (\<forall>r k h. map_of (registry r s) k = Some h \<longrightarrow> h < next_handle s)"

definition timers_of :: "'k \<Rightarrow> role \<Rightarrow> 'k LoadingCache \<Rightarrow> 'k timer list" where
  "timers_of k r s = filter (\<lambda>t. tm_key t = k \<and> tm_role t = r) (armed s)"

text \<open>Every armed timer belongs to a role whose duration is configured and not 0, and has
  the delay the host makes of that duration.\<close>

definition timers_enabled :: "'k LoadingCacheOptions \<Rightarrow> 'k LoadingCache \<Rightarrow> bool" where
  "timers_enabled opts s \<longleftrightarrow>
     (\<forall>t \<in> set (armed s). \<exists>d. duration opts (tm_role t) = Some d \<and> 0 < d \<and>
        tm_delay t = timer_delay d)"

text \<open>The configuration with the duration of one role left out.\<close>

definition omitted :: "role \<Rightarrow> 'k LoadingCacheOptions \<Rightarrow> 'k LoadingCacheOptions" where
  "omitted r opts = (case r of AccessExpiry \<Rightarrow> opts\<lparr>expireAfterAccess := None\<rparr>
                     | WriteExpiry \<Rightarrow> opts\<lparr>expireAfterWrite := None\<rparr>
                     | RefreshWrite \<Rightarrow> opts\<lparr>refreshAfterWrite := None\<rparr>)"

subsection \<open>The entry of a key over time\<close>


definition timers_for :: "'k \<Rightarrow> 'k LoadingCache \<Rightarrow> 'k timer list" where
  "timers_for k s = filter (\<lambda>t. tm_key t = k) (armed s)"

definition notifications :: "'k \<Rightarrow> 'k LoadingCache \<Rightarrow> (jsval \<times> RemovalCause) list" where
  "notifications k s =
     map (\<lambda>n. (snd (rm_entry n), rm_cause n)) (filter (\<lambda>n. fst (rm_entry n) = k) (removed s))"

subsection \<open>The timers of a key\<close>





subsection \<open>Configurations used as examples\<close>

text \<open>The loaders of the test suite (one that resolves to \<open>value-of-\<close> and the key, one that
  fails) and one that resolves to the empty string; \<open>options\<close> builds a configuration with a
  removal listener installed.\<close>

definition value_of :: "string \<Rightarrow> error + jsval" where
  "value_of key = Inr (JStr (''value-of-'' @ key))"

definition can_not_load :: "string \<Rightarrow> error + jsval" where
  "can_not_load key = Inl (LoaderError (''can not load '' @ key))"

definition empty_string :: "string \<Rightarrow> error + jsval" where
  "empty_string key = Inr (JStr '''')"

definition options ::
  "nat option \<Rightarrow> nat option \<Rightarrow> nat option \<Rightarrow> (string \<Rightarrow> error + jsval) \<Rightarrow> string LoadingCacheOptions" where
  "options w a r f = \<lparr>expireAfterWrite = w, expireAfterAccess = a, refreshAfterWrite = r,
     onRemove = True, loader = (\<lambda>calls. f)\<rparr>"

section \<open>Properties\<close>

subsection \<open>What each step leaves unchanged\<close>

lemma registry_registry_update [simp]:
  "registry r' (registry_update r f s) = (if r' = r then f (registry r s) else registry r' s)"
  by (cases r; cases r') (simp_all add: registry_def registry_update_def)

lemma registry_update_fields [simp]:
  "cache (registry_update r f s) = cache s"
  "armed (registry_update r f s) = armed s"
  "clock (registry_update r f s) = clock s"
  "next_handle (registry_update r f s) = next_handle s"
  "loader_calls (registry_update r f s) = loader_calls s"
  "removed (registry_update r f s) = removed s"
  by (cases r; simp add: registry_update_def)+

lemma registry_other_fields [simp]:
  "registry r (s\<lparr>cache := c\<rparr>) = registry r s"
  "registry r (s\<lparr>armed := a\<rparr>) = registry r s"
  "registry r (s\<lparr>clock := n\<rparr>) = registry r s"
  "registry r (s\<lparr>next_handle := h\<rparr>) = registry r s"
  "registry r (s\<lparr>loader_calls := l\<rparr>) = registry r s"
  "registry r (s\<lparr>removed := m\<rparr>) = registry r s"
  by (cases r; simp add: registry_def)+

lemma clearTimer_fields [simp]:
  "cache (clearTimer h s) = cache s"
  "registry r (clearTimer h s) = registry r s"
  "clock (clearTimer h s) = clock s"
  "next_handle (clearTimer h s) = next_handle s"
  "loader_calls (clearTimer h s) = loader_calls s"
  "removed (clearTimer h s) = removed s"
  "armed (clearTimer h s) = filter (\<lambda>t. tm_handle t \<noteq> h) (armed s)"
  by (simp_all add: clearTimer_def)

lemma maybeSetTimer_fields [simp]:
  "cache (maybeSetTimer r opts k s) = cache s"
  "clock (maybeSetTimer r opts k s) = clock s"
  "loader_calls (maybeSetTimer r opts k s) = loader_calls s"
  "removed (maybeSetTimer r opts k s) = removed s"
  by (simp_all add: maybeSetTimer_def setTimer_def Let_def split: option.splits)

lemma clearTimerOf_fields [simp]:
  "cache (clearTimerOf r k s) = cache s"
  "clock (clearTimerOf r k s) = clock s"
  "next_handle (clearTimerOf r k s) = next_handle s"
  "loader_calls (clearTimerOf r k s) = loader_calls s"
  "removed (clearTimerOf r k s) = removed s"
  by (simp_all add: clearTimerOf_def split: option.splits)

lemma clearTimers_fields [simp]:
  "cache (clearTimers k s) = cache s"
  "clock (clearTimers k s) = clock s"
  "next_handle (clearTimers k s) = next_handle s"
  "loader_calls (clearTimers k s) = loader_calls s"
  "removed (clearTimers k s) = removed s"
  by (simp_all add: clearTimers_def)

lemmas maybeSet_defs =
  maybeSetAfterAccessExpirationTimer_def maybeSetAfterWriteExpirationTimer_def
  maybeSetRefreshAfterWriteTimer_def

lemma set_cache_fields [simp]:
  "cache (set_cache opts k v s) = AList.update k v (cache s)"
  "clock (set_cache opts k v s) = clock s"
  "loader_calls (set_cache opts k v s) = loader_calls s"
  by (simp_all add: set_cache_def Let_def maybeSet_defs notify_def)

lemma removed_set_cache:
  "removed (set_cache opts k v s) =
     (if truthy (map_get (cache s) k) \<and> onRemove opts
      then removed s @ [\<lparr>rm_entry = (k, map_get (cache s) k), rm_cause = REPLACED,
                          rm_table = AList.update k v (cache s)\<rparr>]
      else removed s)"
  by (simp add: set_cache_def Let_def maybeSet_defs notify_def)

subsection \<open>The timers and the registries agree\<close>

lemma registry_new_cache [simp]: "registry r new_cache = []"
  by (cases r) (simp_all add: registry_def new_cache_def)

lemma timers_ok_new_cache: "timers_ok new_cache"
  by (simp add: timers_ok_def) (simp add: new_cache_def)

lemma timers_ok_other_fields [simp]:
  "timers_ok (s\<lparr>cache := c\<rparr>) = timers_ok s"
  "timers_ok (s\<lparr>clock := n\<rparr>) = timers_ok s"
  "timers_ok (s\<lparr>loader_calls := l\<rparr>) = timers_ok s"
  "timers_ok (s\<lparr>removed := m\<rparr>) = timers_ok s"
  by (simp_all add: timers_ok_def)

lemma timers_okI:
  assumes "sorted_wrt (<) (map tm_handle (armed s))"
    and "\<And>t. t \<in> set (armed s) \<Longrightarrow> tm_handle t < next_handle s"
    and "\<And>t. t \<in> set (armed s) \<Longrightarrow>
           map_of (registry (tm_role t) s) (tm_key t) = Some (tm_handle t)"
    and "\<And>t r k. t \<in> set (armed s) \<Longrightarrow> map_of (registry r s) k = Some (tm_handle t) \<Longrightarrow>
           tm_key t = k \<and> tm_role t = r"
    and "\<And>r k h. map_of (registry r s) k = Some h \<Longrightarrow> h < next_handle s"
  shows "timers_ok s"
  unfolding timers_ok_def using assms by blast

lemma timers_ok_registry_fresh:
  "timers_ok s \<Longrightarrow> map_of (registry r s) k = Some h \<Longrightarrow> h < next_handle s"
  unfolding timers_ok_def by blast

lemma timers_ok_sorted: "timers_ok s \<Longrightarrow> sorted_wrt (<) (map tm_handle (armed s))"
  by (simp add: timers_ok_def)

lemma timers_ok_distinct: "timers_ok s \<Longrightarrow> distinct (map tm_handle (armed s))"
  by (simp add: timers_ok_def strict_sorted_iff)

lemma sorted_handles_filter:
  "sorted_wrt (<) (map tm_handle xs) \<Longrightarrow> sorted_wrt (<) (map tm_handle (filter P xs))"
  by (simp add: sorted_wrt_map sorted_wrt_filter)

lemma timers_ok_fresh: "timers_ok s \<Longrightarrow> t \<in> set (armed s) \<Longrightarrow> tm_handle t < next_handle s"
  by (simp add: timers_ok_def)

lemma timers_ok_registered:
  "timers_ok s \<Longrightarrow> t \<in> set (armed s) \<Longrightarrow>
   map_of (registry (tm_role t) s) (tm_key t) = Some (tm_handle t)"
  by (simp add: timers_ok_def)

lemma timers_ok_owner:
  "timers_ok s \<Longrightarrow> t \<in> set (armed s) \<Longrightarrow> map_of (registry r s) k = Some (tm_handle t) \<Longrightarrow>
   tm_key t = k \<and> tm_role t = r"
  unfolding timers_ok_def by blast

lemma timers_ok_clearTimer:
  assumes "timers_ok s"
  shows "timers_ok (clearTimer h s)"
proof (rule timers_okI)
  show "sorted_wrt (<) (map tm_handle (armed (clearTimer h s)))"
    using timers_ok_sorted [OF assms] by (simp add: sorted_handles_filter)
next
  fix t assume "t \<in> set (armed (clearTimer h s))"
  then have t: "t \<in> set (armed s)" by simp
  show "tm_handle t < next_handle (clearTimer h s)"
    using timers_ok_fresh [OF assms t] by simp
  show "map_of (registry (tm_role t) (clearTimer h s)) (tm_key t) = Some (tm_handle t)"
    using timers_ok_registered [OF assms t] by simp
  fix r k assume "map_of (registry r (clearTimer h s)) k = Some (tm_handle t)"
  then show "tm_key t = k \<and> tm_role t = r"
    using timers_ok_owner [OF assms t] by simp
next
  fix r k h' assume "map_of (registry r (clearTimer h s)) k = Some h'"
  then show "h' < next_handle (clearTimer h s)"
    using timers_ok_registry_fresh [OF assms] by simp
qed

text \<open>Cancelling the timer registered for a key and role cancels the timers armed for them.\<close>

lemma cancel_registered:
  assumes "timers_ok s"
  shows "armed (case map_of (registry r s) k of None \<Rightarrow> s | Some h \<Rightarrow> clearTimer h s) =
         filter (\<lambda>t. \<not> (tm_key t = k \<and> tm_role t = r)) (armed s)"
proof (cases "map_of (registry r s) k")
  case None
  have "\<not> (tm_key t = k \<and> tm_role t = r)" if "t \<in> set (armed s)" for t
    using timers_ok_registered [OF assms that] None by auto
  then show ?thesis using None by simp
next
  case (Some h)
  have "(tm_handle t \<noteq> h) = (\<not> (tm_key t = k \<and> tm_role t = r))" if "t \<in> set (armed s)" for t
  proof (cases "tm_handle t = h")
    case True
    then show ?thesis using timers_ok_owner [OF assms that, of r k] Some by simp
  next
    case False
    then show ?thesis using timers_ok_registered [OF assms that] Some by auto
  qed
  then show ?thesis using Some by (simp cong: filter_cong)
qed

lemma maybeSetTimer_unfold:
  "maybeSetTimer r opts k s =
     (case duration opts r of
        None \<Rightarrow> s
      | Some d \<Rightarrow>
          if d = 0 then s
          else registry_update r (AList.update k (next_handle s))
                 ((case map_of (registry r s) k of None \<Rightarrow> s | Some h \<Rightarrow> clearTimer h s)
                    \<lparr>armed := armed (case map_of (registry r s) k of None \<Rightarrow> s
                                     | Some h \<Rightarrow> clearTimer h s) @
                               [\<lparr>tm_handle = next_handle s, tm_due = clock s + timer_delay d,
                                 tm_delay = timer_delay d, tm_key = k, tm_role = r\<rparr>],
                      next_handle := Suc (next_handle s)\<rparr>))"
  by (simp add: maybeSetTimer_def setTimer_def Let_def split: option.splits)

lemma maybeSetTimer_armed:
  assumes "timers_ok s"
  shows "armed (maybeSetTimer r opts k s) =
     (case duration opts r of
        None \<Rightarrow> armed s
      | Some d \<Rightarrow>
          if d = 0 then armed s
          else filter (\<lambda>t. \<not> (tm_key t = k \<and> tm_role t = r)) (armed s) @
                 [\<lparr>tm_handle = next_handle s, tm_due = clock s + timer_delay d,
                   tm_delay = timer_delay d, tm_key = k, tm_role = r\<rparr>])"
  by (simp add: maybeSetTimer_unfold cancel_registered [OF assms] split: option.splits)

lemma maybeSetTimer_registry:
  "map_of (registry r' (maybeSetTimer r opts k s)) k' =
     (case duration opts r of
        None \<Rightarrow> map_of (registry r' s) k'
      | Some d \<Rightarrow>
          if d \<noteq> 0 \<and> r' = r \<and> k' = k then Some (next_handle s)
          else map_of (registry r' s) k')"
  by (auto simp: maybeSetTimer_unfold update_conv' split: option.splits)

lemma maybeSetTimer_next_handle:
  "next_handle (maybeSetTimer r opts k s) =
     (case duration opts r of
        None \<Rightarrow> next_handle s
      | Some d \<Rightarrow> if d = 0 then next_handle s else Suc (next_handle s))"
  by (simp add: maybeSetTimer_unfold split: option.splits)

lemma timers_ok_maybeSetTimer:
  assumes "timers_ok s"
  shows "timers_ok (maybeSetTimer r opts k s)"
proof (cases "duration opts r")
  case None
  then show ?thesis using assms by (simp add: maybeSetTimer_def)
next
  case (Some d)
  show ?thesis
  proof (cases "d = 0")
    case True
    then show ?thesis using assms Some by (simp add: maybeSetTimer_def)
  next
    case False
    have a: "armed (maybeSetTimer r opts k s) =
        filter (\<lambda>t. \<not> (tm_key t = k \<and> tm_role t = r)) (armed s) @
          [\<lparr>tm_handle = next_handle s, tm_due = clock s + timer_delay d,
            tm_delay = timer_delay d, tm_key = k, tm_role = r\<rparr>]"
      using Some False by (simp add: maybeSetTimer_armed [OF assms])
    have n: "next_handle (maybeSetTimer r opts k s) = Suc (next_handle s)"
      using Some False by (simp add: maybeSetTimer_next_handle)
    have g: "map_of (registry r' (maybeSetTimer r opts k s)) k' =
        (if r' = r \<and> k' = k then Some (next_handle s) else map_of (registry r' s) k')" for r' k'
      using Some False by (simp add: maybeSetTimer_registry)
    let ?new = "\<lparr>tm_handle = next_handle s, tm_due = clock s + timer_delay d,
            tm_delay = timer_delay d, tm_key = k, tm_role = r\<rparr>"
    have old: "t \<in> set (armed s) \<or> t = ?new"
      if "t \<in> set (armed (maybeSetTimer r opts k s))" for t
      using that unfolding a by auto
    have old': "\<not> (tm_key t = k \<and> tm_role t = r)"
      if "t \<in> set (armed (maybeSetTimer r opts k s))" and "t \<in> set (armed s)" for t
    proof -
      have "tm_handle t \<noteq> tm_handle ?new"
        using timers_ok_fresh [OF assms that(2)] by simp
      then have "t \<noteq> ?new" by metis
      then show ?thesis using that(1) unfolding a by simp
    qed
    show ?thesis
    proof (rule timers_okI)
      have "\<forall>t \<in> set (armed s). tm_handle t < next_handle s"
        using timers_ok_fresh [OF assms] by simp
      then show "sorted_wrt (<) (map tm_handle (armed (maybeSetTimer r opts k s)))"
        unfolding a using sorted_handles_filter [OF timers_ok_sorted [OF assms]]
        by (simp add: sorted_wrt_append)
    next
      fix t assume t: "t \<in> set (armed (maybeSetTimer r opts k s))"
      show "tm_handle t < next_handle (maybeSetTimer r opts k s)"
        using old [OF t] timers_ok_fresh [OF assms, of t] unfolding n by auto
      show "map_of (registry (tm_role t) (maybeSetTimer r opts k s)) (tm_key t) =
          Some (tm_handle t)"
        using old [OF t] old' [OF t] timers_ok_registered [OF assms, of t] unfolding g by auto
      fix r' k'
      assume reg: "map_of (registry r' (maybeSetTimer r opts k s)) k' = Some (tm_handle t)"
      show "tm_key t = k' \<and> tm_role t = r'"
      proof (cases "t \<in> set (armed s)")
        case True
        have "tm_handle t \<noteq> next_handle s" using timers_ok_fresh [OF assms True] by simp
        then have "map_of (registry r' s) k' = Some (tm_handle t)"
          using reg unfolding g by (simp split: if_splits)
        then show ?thesis using timers_ok_owner [OF assms True] by simp
      next
        case False
        then have eq: "t = \<lparr>tm_handle = next_handle s, tm_due = clock s + timer_delay d,
            tm_delay = timer_delay d, tm_key = k, tm_role = r\<rparr>"
          using old [OF t] by simp
        show ?thesis
        proof (cases "r' = r \<and> k' = k")
          case True
          then show ?thesis using eq by simp
        next
          case False
          then have "map_of (registry r' s) k' = Some (next_handle s)"
            using reg eq unfolding g by (simp split: if_splits)
          then show ?thesis using timers_ok_registry_fresh [OF assms] by blast
        qed
      qed
    next
      fix r' k' h assume "map_of (registry r' (maybeSetTimer r opts k s)) k' = Some h"
      then show "h < next_handle (maybeSetTimer r opts k s)"
        using timers_ok_registry_fresh [OF assms, of r' k' h] unfolding n g
        by (auto split: if_splits)
    qed
  qed
qed

lemma clearTimerOf_armed:
  assumes "timers_ok s"
  shows "armed (clearTimerOf r k s) = filter (\<lambda>t. \<not> (tm_key t = k \<and> tm_role t = r)) (armed s)"
proof -
  have "armed (clearTimerOf r k s) =
      armed (case map_of (registry r s) k of None \<Rightarrow> s | Some h \<Rightarrow> clearTimer h s)"
    by (simp add: clearTimerOf_def split: option.splits)
  then show ?thesis by (simp add: cancel_registered [OF assms])
qed

lemma clearTimerOf_registry:
  "map_of (registry r' (clearTimerOf r k s)) k' =
     (if r' = r \<and> k' = k then None else map_of (registry r' s) k')"
  by (auto simp: clearTimerOf_def delete_conv' split: option.splits)

lemma timers_ok_clearTimerOf:
  assumes "timers_ok s"
  shows "timers_ok (clearTimerOf r k s)"
proof (rule timers_okI)
  show "sorted_wrt (<) (map tm_handle (armed (clearTimerOf r k s)))"
    using timers_ok_sorted [OF assms]
    by (simp add: clearTimerOf_armed [OF assms] sorted_handles_filter)
next
  fix t assume "t \<in> set (armed (clearTimerOf r k s))"
  then have t: "t \<in> set (armed s)" and t': "\<not> (tm_key t = k \<and> tm_role t = r)"
    by (simp_all add: clearTimerOf_armed [OF assms])
  show "tm_handle t < next_handle (clearTimerOf r k s)"
    using timers_ok_fresh [OF assms t] by simp
  show "map_of (registry (tm_role t) (clearTimerOf r k s)) (tm_key t) = Some (tm_handle t)"
    using timers_ok_registered [OF assms t] t' by (auto simp: clearTimerOf_registry)
  fix r' k' assume "map_of (registry r' (clearTimerOf r k s)) k' = Some (tm_handle t)"
  then have "map_of (registry r' s) k' = Some (tm_handle t)"
    by (simp add: clearTimerOf_registry split: if_splits)
  then show "tm_key t = k' \<and> tm_role t = r'"
    using timers_ok_owner [OF assms t] by simp
next
  fix r' k' h assume "map_of (registry r' (clearTimerOf r k s)) k' = Some h"
  then have "map_of (registry r' s) k' = Some h"
    by (simp add: clearTimerOf_registry split: if_splits)
  then show "h < next_handle (clearTimerOf r k s)"
    using timers_ok_registry_fresh [OF assms] by simp
qed

lemma timers_ok_clearTimers: "timers_ok s \<Longrightarrow> timers_ok (clearTimers k s)"
  by (simp add: clearTimers_def timers_ok_clearTimerOf)

lemma clearTimers_armed:
  assumes "timers_ok s"
  shows "armed (clearTimers k s) = filter (\<lambda>t. tm_key t \<noteq> k) (armed s)"
proof -
  let ?s1 = "clearTimerOf AccessExpiry k s"
  let ?s2 = "clearTimerOf WriteExpiry k ?s1"
  have ok1: "timers_ok ?s1" and ok2: "timers_ok ?s2"
    using assms by (simp_all add: timers_ok_clearTimerOf)
  have "armed (clearTimers k s) =
      filter (\<lambda>t. \<not> (tm_key t = k \<and> tm_role t = RefreshWrite) \<and>
                  \<not> (tm_key t = k \<and> tm_role t = WriteExpiry) \<and>
                  \<not> (tm_key t = k \<and> tm_role t = AccessExpiry)) (armed s)"
    by (simp add: clearTimers_def clearTimerOf_armed [OF ok2] clearTimerOf_armed [OF ok1]
          clearTimerOf_armed [OF assms] conj_commute conj_left_commute)
  also have "\<dots> = filter (\<lambda>t. tm_key t \<noteq> k) (armed s)"
  proof (rule filter_cong [OF refl])
    fix t :: "'a timer"
    show "(\<not> (tm_key t = k \<and> tm_role t = RefreshWrite) \<and>
           \<not> (tm_key t = k \<and> tm_role t = WriteExpiry) \<and>
           \<not> (tm_key t = k \<and> tm_role t = AccessExpiry)) = (tm_key t \<noteq> k)"
      by (cases "tm_role t") auto
  qed
  finally show ?thesis .
qed

lemma clearTimers_registry:
  "map_of (registry r (clearTimers k s)) k' = (if k' = k then None else map_of (registry r s) k')"
  by (cases r) (simp_all add: clearTimers_def clearTimerOf_registry)

lemma timers_ok_notify [simp]: "timers_ok (notify e c s) = timers_ok s"
  by (simp add: notify_def)

lemma timers_ok_set_cache: "timers_ok s \<Longrightarrow> timers_ok (set_cache opts k v s)"
  by (simp add: set_cache_def Let_def maybeSet_defs timers_ok_maybeSetTimer)

lemma timers_ok_removeWithCause:
  "timers_ok s \<Longrightarrow> timers_ok (snd (removeWithCause opts k c s))"
  by (simp add: removeWithCause_def Let_def timers_ok_clearTimers)

lemma timers_ok_load: "timers_ok s \<Longrightarrow> timers_ok (snd (load opts k s))"
  by (simp add: load_def Let_def timers_ok_set_cache split: sum.splits)

lemma timers_ok_get: "timers_ok s \<Longrightarrow> timers_ok (snd (get opts k s))"
  using timers_ok_load [of s opts k]
  by (auto simp: get_def Let_def maybeSet_defs timers_ok_maybeSetTimer
           split: sum.splits prod.splits)

lemma reschedule_fields [simp]:
  "tm_handle (reschedule h u) = tm_handle u"
  "tm_key (reschedule h u) = tm_key u"
  "tm_role (reschedule h u) = tm_role u"
  "tm_delay (reschedule h u) = tm_delay u"
  by (simp_all add: reschedule_def)

lemma timers_ok_reschedule:
  assumes "timers_ok s"
  shows "timers_ok (s\<lparr>armed := map (reschedule h) (armed s)\<rparr>)"
proof -
  show ?thesis
  proof (rule timers_okI)
    show "sorted_wrt (<) (map tm_handle (armed (s\<lparr>armed := map (reschedule h) (armed s)\<rparr>)))"
      using timers_ok_sorted [OF assms] by (simp add: comp_def)
  next
    fix t assume "t \<in> set (armed (s\<lparr>armed := map (reschedule h) (armed s)\<rparr>))"
    then obtain u where u: "u \<in> set (armed s)" and t: "t = reschedule h u" by auto
    show "tm_handle t < next_handle (s\<lparr>armed := map (reschedule h) (armed s)\<rparr>)"
      using timers_ok_fresh [OF assms u] t by simp
    show "map_of (registry (tm_role t) (s\<lparr>armed := map (reschedule h) (armed s)\<rparr>)) (tm_key t) =
        Some (tm_handle t)"
      using timers_ok_registered [OF assms u] t by simp
    fix r k
    assume "map_of (registry r (s\<lparr>armed := map (reschedule h) (armed s)\<rparr>)) k =
        Some (tm_handle t)"
    then show "tm_key t = k \<and> tm_role t = r"
      using timers_ok_owner [OF assms u, of r k] t by simp
  next
    fix r k h'
    assume "map_of (registry r (s\<lparr>armed := map (reschedule h) (armed s)\<rparr>)) k = Some h'"
    then show "h' < next_handle (s\<lparr>armed := map (reschedule h) (armed s)\<rparr>)"
      using timers_ok_registry_fresh [OF assms] by simp
  qed
qed

lemma timers_ok_fire: "timers_ok s \<Longrightarrow> timers_ok (fire opts t s)"
  by (cases "tm_role t")
     (simp_all add: fire_def expire_def timers_ok_removeWithCause timers_ok_clearTimer
        timers_ok_load timers_ok_reschedule)

lemma timers_ok_run_due: "timers_ok s \<Longrightarrow> timers_ok (run_due opts hs s)"
  by (induction hs arbitrary: s) (simp_all add: timers_ok_fire split: option.splits)

lemma timers_ok_tick: "timers_ok s \<Longrightarrow> timers_ok (tick opts s)"
  by (simp add: tick_def Let_def timers_ok_run_due)


lemma timers_ok_step: "timers_ok s \<Longrightarrow> timers_ok (step opts ev s)"
  by (cases ev)
     (simp_all add: timers_ok_get timers_ok_set_cache delete_cache_def
        timers_ok_removeWithCause clear_def timers_ok_tick)

lemma timers_ok_fold: "timers_ok s \<Longrightarrow> timers_ok (fold (step opts) evs s)"
  by (induction evs arbitrary: s) (simp_all add: timers_ok_step)

lemma timers_ok_run: "timers_ok (run opts evs)"
  by (simp add: run_def timers_ok_fold timers_ok_new_cache)

subsection \<open>At most one timer for a key and role\<close>

lemma same_handle_at_most_one:
  "distinct (map f xs) \<Longrightarrow> \<forall>x \<in> set xs. P x \<longrightarrow> f x = h \<Longrightarrow> length (filter P xs) \<le> 1"
proof (induction xs)
  case Nil
  then show ?case by simp
next
  case (Cons x xs)
  show ?case
  proof (cases "P x")
    case True
    have "filter P xs = []"
    proof (rule ccontr)
      assume "filter P xs \<noteq> []"
      then obtain y where "y \<in> set xs" "P y"
        by (metis filter_False)
      then have "f y = h" "f x = h" using Cons.prems True by auto
      then show False using Cons.prems(1) \<open>y \<in> set xs\<close> by force
    qed
    then show ?thesis using True by simp
  next
    case False
    then show ?thesis using Cons by simp
  qed
qed

lemma timers_ok_at_most_one:
  assumes "timers_ok s"
  shows "length (timers_of k r s) \<le> 1"
proof (cases "map_of (registry r s) k")
  case None
  have "\<not> (tm_key t = k \<and> tm_role t = r)" if "t \<in> set (armed s)" for t
    using timers_ok_registered [OF assms that] None by auto
  then have "timers_of k r s = []"
    by (simp add: timers_of_def)
  then show ?thesis by simp
next
  case (Some h)
  have "tm_key t = k \<and> tm_role t = r \<longrightarrow> tm_handle t = h" if "t \<in> set (armed s)" for t
    using timers_ok_registered [OF assms that] Some by auto
  then have "\<forall>t \<in> set (armed s). tm_key t = k \<and> tm_role t = r \<longrightarrow> tm_handle t = h"
    by simp
  then show ?thesis
    unfolding timers_of_def
    by (rule same_handle_at_most_one [OF timers_ok_distinct [OF assms]])
qed

lemma maybeSetTimer_timers_of:
  assumes "timers_ok s" and "duration opts r = Some d" and "0 < d"
  shows "timers_of k r (maybeSetTimer r opts k s) =
     [\<lparr>tm_handle = next_handle s, tm_due = clock s + timer_delay d, tm_delay = timer_delay d, tm_key = k, tm_role = r\<rparr>]"
  using assms(2,3) by (simp add: timers_of_def maybeSetTimer_armed [OF assms(1)])

lemma removeWithCause_timers_of:
  assumes "timers_ok s" and "fst (removeWithCause opts k c s)"
  shows "timers_of k r (snd (removeWithCause opts k c s)) = []"
  using assms(2)
  by (simp add: removeWithCause_def Let_def timers_of_def clearTimers_armed [OF assms(1)]
        notify_def split: if_splits)

subsection \<open>Only enabled roles have timers\<close>

lemma timers_enabled_other_fields [simp]:
  "timers_enabled opts (s\<lparr>cache := c\<rparr>) = timers_enabled opts s"
  "timers_enabled opts (s\<lparr>clock := n\<rparr>) = timers_enabled opts s"
  "timers_enabled opts (s\<lparr>loader_calls := l\<rparr>) = timers_enabled opts s"
  "timers_enabled opts (s\<lparr>removed := m\<rparr>) = timers_enabled opts s"
  "timers_enabled opts (registry_update r f s) = timers_enabled opts s"
  "timers_enabled opts (notify e cause s) = timers_enabled opts s"
  by (simp_all add: timers_enabled_def notify_def)

lemma timers_enabled_new_cache: "timers_enabled opts new_cache"
  by (simp add: timers_enabled_def new_cache_def)

lemma timers_enabled_clearTimer: "timers_enabled opts s \<Longrightarrow> timers_enabled opts (clearTimer h s)"
  by (simp add: timers_enabled_def)

lemma timers_enabled_maybeSetTimer:
  "timers_enabled opts s \<Longrightarrow> timers_enabled opts (maybeSetTimer r opts k s)"
  by (auto simp: maybeSetTimer_unfold timers_enabled_def split: option.splits)

lemma timers_enabled_clearTimerOf:
  "timers_enabled opts s \<Longrightarrow> timers_enabled opts (clearTimerOf r k s)"
  by (simp add: clearTimerOf_def timers_enabled_clearTimer split: option.splits)

lemma timers_enabled_clearTimers:
  "timers_enabled opts s \<Longrightarrow> timers_enabled opts (clearTimers k s)"
  by (simp add: clearTimers_def timers_enabled_clearTimerOf)

lemma timers_enabled_set_cache:
  "timers_enabled opts s \<Longrightarrow> timers_enabled opts (set_cache opts k v s)"
  by (simp add: set_cache_def Let_def maybeSet_defs timers_enabled_maybeSetTimer)

lemma timers_enabled_removeWithCause:
  "timers_enabled opts s \<Longrightarrow> timers_enabled opts (snd (removeWithCause opts k c s))"
  by (simp add: removeWithCause_def Let_def timers_enabled_clearTimers)

lemma timers_enabled_load:
  "timers_enabled opts s \<Longrightarrow> timers_enabled opts (snd (load opts k s))"
  by (simp add: load_def Let_def timers_enabled_set_cache split: sum.splits)

lemma timers_enabled_get:
  "timers_enabled opts s \<Longrightarrow> timers_enabled opts (snd (get opts k s))"
  using timers_enabled_load [of opts s k]
  by (auto simp: get_def Let_def maybeSet_defs timers_enabled_maybeSetTimer
           split: sum.splits prod.splits)

lemma timers_enabled_reschedule:
  "timers_enabled opts s \<Longrightarrow>
   timers_enabled opts (s\<lparr>armed := map (reschedule h) (armed s)\<rparr>)"
  by (auto simp: timers_enabled_def)

lemma timers_enabled_fire:
  "timers_enabled opts s \<Longrightarrow> timers_enabled opts (fire opts t s)"
  by (cases "tm_role t")
     (simp_all add: fire_def expire_def timers_enabled_removeWithCause timers_enabled_clearTimer
        timers_enabled_load timers_enabled_reschedule)

lemma timers_enabled_run_due:
  "timers_enabled opts s \<Longrightarrow> timers_enabled opts (run_due opts hs s)"
  by (induction hs arbitrary: s) (simp_all add: timers_enabled_fire split: option.splits)

lemma timers_enabled_tick: "timers_enabled opts s \<Longrightarrow> timers_enabled opts (tick opts s)"
  by (simp add: tick_def Let_def timers_enabled_run_due)

lemma timers_enabled_step: "timers_enabled opts s \<Longrightarrow> timers_enabled opts (step opts ev s)"
  by (cases ev)
     (simp_all add: timers_enabled_get timers_enabled_set_cache delete_cache_def
        timers_enabled_removeWithCause clear_def timers_enabled_tick)

lemma timers_enabled_fold:
  "timers_enabled opts s \<Longrightarrow> timers_enabled opts (fold (step opts) evs s)"
  by (induction evs arbitrary: s) (simp_all add: timers_enabled_step)

lemma timers_enabled_run: "timers_enabled opts (run opts evs)"
  by (simp add: run_def timers_enabled_fold timers_enabled_new_cache)

subsection \<open>A duration of 0 and a duration left out\<close>

lemma omitted_fields [simp]:
  "onRemove (omitted r opts) = onRemove opts"
  "loader (omitted r opts) = loader opts"
  "duration (omitted r opts) r' = (if r' = r then None else duration opts r')"
  by (cases r; cases r'; simp add: omitted_def duration_def)+

lemma maybeSetTimer_omitted:
  "duration opts r = Some 0 \<Longrightarrow> maybeSetTimer r' (omitted r opts) = maybeSetTimer r' opts"
  by (intro ext) (simp add: maybeSetTimer_def)

lemma set_cache_omitted:
  "duration opts r = Some 0 \<Longrightarrow> set_cache (omitted r opts) = set_cache opts"
  by (intro ext) (simp add: set_cache_def Let_def maybeSet_defs maybeSetTimer_omitted)

lemma removeWithCause_omitted: "removeWithCause (omitted r opts) = removeWithCause opts"
  by (intro ext) (simp add: removeWithCause_def Let_def)

lemma load_omitted: "duration opts r = Some 0 \<Longrightarrow> load (omitted r opts) = load opts"
  by (intro ext) (simp add: load_def Let_def set_cache_omitted split: sum.splits)

lemma get_omitted: "duration opts r = Some 0 \<Longrightarrow> get (omitted r opts) = get opts"
  by (intro ext) (simp add: get_def Let_def load_omitted maybeSet_defs maybeSetTimer_omitted split: prod.splits sum.splits)

lemma fire_omitted: "duration opts r = Some 0 \<Longrightarrow> fire (omitted r opts) = fire opts"
  by (intro ext) (simp add: fire_def expire_def load_omitted removeWithCause_omitted split: role.splits)

lemma run_due_omitted:
  "duration opts r = Some 0 \<Longrightarrow> run_due (omitted r opts) hs s = run_due opts hs s"
  by (induction hs arbitrary: s) (simp_all add: fire_omitted split: option.splits)

lemma step_omitted: "duration opts r = Some 0 \<Longrightarrow> step (omitted r opts) ev s = step opts ev s"
  by (cases ev)
     (simp_all add: get_omitted set_cache_omitted delete_cache_def removeWithCause_omitted
        tick_def run_due_omitted)

lemma run_omitted: "duration opts r = Some 0 \<Longrightarrow> run (omitted r opts) evs = run opts evs"
proof -
  assume "duration opts r = Some 0"
  then have "step (omitted r opts) = step opts"
    by (intro ext) (rule step_omitted)
  then show ?thesis by (simp add: run_def)
qed

subsection \<open>The effect of a step on one key\<close>

lemma notifications_other_fields [simp]:
  "notifications k (s\<lparr>cache := c\<rparr>) = notifications k s"
  "notifications k (s\<lparr>armed := a\<rparr>) = notifications k s"
  "notifications k (s\<lparr>clock := n\<rparr>) = notifications k s"
  "notifications k (s\<lparr>loader_calls := l\<rparr>) = notifications k s"
  "notifications k (clearTimer h s) = notifications k s"
  "notifications k (clearTimers k' s) = notifications k s"
  "notifications k (maybeSetTimer r opts k' s) = notifications k s"
  by (simp_all add: notifications_def)

lemma notifications_notify:
  "notifications k (notify (k', x) c s) =
     (if k' = k then notifications k s @ [(x, c)] else notifications k s)"
  by (simp add: notifications_def notify_def)

lemma timers_for_other_fields [simp]:
  "timers_for k (s\<lparr>cache := c\<rparr>) = timers_for k s"
  "timers_for k (s\<lparr>clock := n\<rparr>) = timers_for k s"
  "timers_for k (s\<lparr>loader_calls := l\<rparr>) = timers_for k s"
  "timers_for k (s\<lparr>removed := m\<rparr>) = timers_for k s"
  "timers_for k (notify e cause s) = timers_for k s"
  by (simp_all add: timers_for_def notify_def)

text \<open>What \<open>removeWithCause\<close> does to the entry, the timers and the notifications of a key.\<close>

lemma removeWithCause_cache:
  "map_of (cache (snd (removeWithCause opts k' c s))) k =
     (if k' = k \<and> truthy (map_get (cache s) k') then None else map_of (cache s) k)"
  by (simp add: removeWithCause_def Let_def notify_def delete_conv')

lemma removeWithCause_timers_for:
  assumes "timers_ok s"
  shows "timers_for k (snd (removeWithCause opts k' c s)) =
     (if truthy (map_get (cache s) k') then (if k' = k then [] else timers_for k s)
      else timers_for k s)"
proof -
  have "filter (\<lambda>t. tm_key t = k) (filter (\<lambda>t. tm_key t \<noteq> k') (armed s)) =
      (if k' = k then [] else filter (\<lambda>t. tm_key t = k) (armed s))"
    by (auto intro: filter_cong)
  then show ?thesis
    by (simp add: removeWithCause_def Let_def)
       (simp add: timers_for_def clearTimers_armed [OF assms] notify_def)
qed

lemma removeWithCause_notifications:
  "notifications k (snd (removeWithCause opts k' c s)) =
     (if k' = k \<and> truthy (map_get (cache s) k') \<and> onRemove opts
      then notifications k s @ [(map_get (cache s) k', c)] else notifications k s)"
  by (auto simp: removeWithCause_def Let_def notifications_notify)

lemma removeWithCause_clock [simp]: "clock (snd (removeWithCause opts k c s)) = clock s"
  by (simp add: removeWithCause_def Let_def notify_def)




lemma clock_load [simp]: "clock (snd (load opts k s)) = clock s"
  by (simp add: load_def Let_def split: sum.splits)

lemma clock_fire [simp]: "clock (fire opts u s) = clock s"
  by (cases "tm_role u") (simp_all add: fire_def expire_def)

lemma clock_run_due [simp]: "clock (run_due opts hs s) = clock s"
  by (induction hs arbitrary: s) (simp_all split: option.splits)

lemma clock_tick [simp]: "clock (tick opts s) = Suc (clock s)"
  by (simp add: tick_def Let_def)

lemma clock_advance [simp]: "clock (advance opts n s) = clock s + n"
  by (induction n arbitrary: s) simp_all











lemma maybeSetTimer_armed_keeps:
  assumes "timers_ok s" and "t \<in> set (armed s)" and "\<not> (tm_key t = k \<and> tm_role t = r)"
  shows "t \<in> set (armed (maybeSetTimer r opts k s))"
  using assms(2,3) by (auto simp: maybeSetTimer_armed [OF assms(1)] split: option.splits)

subsection \<open>The methods on truthy values\<close>

lemma loader_calls_load [simp]:
  "loader_calls (snd (load opts k s)) = loader_calls s @ [k]"
  by (simp add: load_def Let_def split: sum.splits)

lemma get_hit:
  assumes "truthy (map_get (cache s) k)"
  shows "get opts k s = (Inr (map_get (cache s) k), maybeSetAfterAccessExpirationTimer opts k s)"
  using assms by (simp add: get_def)

lemma get_miss_then_hit:
  assumes "\<not> truthy (map_get (cache s) k)" and "loader opts (loader_calls s) k = Inr v"
    and "truthy v"
  shows "fst (get opts k s) = Inr v \<and>
         loader_calls (snd (get opts k s)) = loader_calls s @ [k] \<and>
         fst (get opts k (snd (get opts k s))) = Inr v \<and>
         loader_calls (snd (get opts k (snd (get opts k s)))) = loader_calls s @ [k]"
proof -
  let ?s1 = "maybeSetAfterAccessExpirationTimer opts k
      (set_cache opts k v (s\<lparr>loader_calls := loader_calls s @ [k]\<rparr>))"
  have g1: "get opts k s = (Inr v, ?s1)"
    using assms(1,2) by (simp add: get_def load_def Let_def)
  have v1: "map_get (cache ?s1) k = v"
    by (simp add: maybeSet_defs map_get_def update_conv')
  have g2: "get opts k ?s1 = (Inr v, maybeSetAfterAccessExpirationTimer opts k ?s1)"
    using get_hit [of ?s1 k opts] assms(3) v1 by simp
  show ?thesis
    unfolding g1 by (simp add: g2) (simp add: maybeSet_defs)
qed

lemma set_cache_over_truthy:
  assumes "map_of (cache s) k = Some old" and "truthy old" and "onRemove opts"
  shows "removed (set_cache opts k v s) =
           removed s @ [\<lparr>rm_entry = (k, old), rm_cause = REPLACED,
                           rm_table = AList.update k v (cache s)\<rparr>] \<and>
         map_of (AList.update k v (cache s)) k = Some v"
  using assms by (simp add: removed_set_cache map_get_def update_conv')

lemma set_cache_fresh_key:
  assumes "map_of (cache s) k = None"
  shows "removed (set_cache opts k v s) = removed s \<and>
         map_of (cache (set_cache opts k v s)) k = Some v"
  using assms by (simp add: removed_set_cache map_get_def update_conv')

lemma delete_cache_truthy:
  assumes "timers_ok s" and "map_of (cache s) k = Some v" and "truthy v"
  shows "fst (delete_cache opts k s) \<and>
         \<not> has k (snd (delete_cache opts k s)) \<and>
         timers_for k (snd (delete_cache opts k s)) = [] \<and>
         notifications k (snd (delete_cache opts k s)) =
           notifications k s @ (if onRemove opts then [(v, EXPLICIT_DELETE)] else [])"
proof -
  have g: "map_get (cache s) k = v" using assms(2) by (simp add: map_get_def)
  show ?thesis
    using assms(3) g
    by (simp add: delete_cache_def has_def removeWithCause_cache
          removeWithCause_timers_for [OF assms(1)] removeWithCause_notifications)
       (simp add: removeWithCause_def Let_def)
qed

lemma delete_cache_absent:
  assumes "map_of (cache s) k = None"
  shows "delete_cache opts k s = (False, s)"
  using assms by (simp add: delete_cache_def removeWithCause_def map_get_def)

subsection \<open>The timers that a write arms\<close>

lemma timer_delay_pos [simp]: "0 < timer_delay d"
  by (simp add: timer_delay_def)







subsection \<open>Time passing for a key whose timers are not due\<close>






subsection \<open>The tick in which an expiry timer of a key fires\<close>



subsection \<open>The tick in which the refresh timer of a key fires\<close>






subsection \<open>Expiry after write\<close>


subsection \<open>Refresh after write\<close>






subsection \<open>Evaluating the examples\<close>

lemmas eval_defs =
  options_def value_of_def can_not_load_def empty_string_def new_cache_def run_def get_def
  load_def set_cache_def removeWithCause_def delete_cache_def has_def clear_def size_cache_def
  expire_def notify_def maybeSet_defs maybeSetTimer_def setTimer_def clearTimer_def
  clearTimers_def clearTimerOf_def registry_def registry_update_def duration_def map_get_def
  fire_def tick_def reschedule_def timers_of_def timers_for_def notifications_def Let_def
  timer_delay_def TIMEOUT_MAX_def


section \<open>The claims\<close>

text \<open>
  Claim C1: for a key not loaded or set before, \<open>get\<close> calls the loader exactly once, and a
  second \<open>get\<close> right after it returns the cached value without calling the loader again.
  The code decides on the truthiness of the stored value, not on the presence of the entry:
  with a loader that resolves to the empty string, the first \<open>get\<close> stores the entry (\<open>has\<close>
  is true) and the second \<open>get\<close> calls the loader a second time.
\<close>

theorem get_twice_falsy_value:
  "has ''foo'' (run (options None None None empty_string) [Get ''foo'']) \<and>
   loader_calls (run (options None None None empty_string) [Get ''foo'']) = [''foo''] \<and>
   loader_calls (run (options None None None empty_string) [Get ''foo'', Get ''foo'']) =
     [''foo'', ''foo'']"
  by code_simp

text \<open>
  Claim C2: \<open>set\<close> over a live value replaces the entry and then calls the removal listener
  once with the old value and cause \<open>REPLACED\<close>; without a prior value there is no call.
  With the empty string stored for the key (\<open>has\<close> is true), a second \<open>set\<close> replaces it
  and the listener is never called.
\<close>

theorem set_over_falsy_value:
  "has ''foo'' (run (options None None None value_of) [Set ''foo'' (JStr '''')]) \<and>
   removed (run (options None None None value_of)
     [Set ''foo'' (JStr ''''), Set ''foo'' (JStr ''bar'')]) = []"
  by code_simp

text \<open>
  Claim C3: \<open>delete\<close> removes the entry exactly if a live value exists for the key, cancels
  its timers, notifies the listener once and returns true; otherwise it returns false and
  does nothing. With the number 0 stored for the key (\<open>has\<close> is true), \<open>delete\<close> returns
  false and the entry stays.
\<close>

theorem delete_falsy_value:
  "has ''foo'' (run (options None None None value_of) [Set ''foo'' (JNum 0)]) \<and>
   delete_cache (options None None None value_of) ''foo''
     (run (options None None None value_of) [Set ''foo'' (JNum 0)]) =
   (False, run (options None None None value_of) [Set ''foo'' (JNum 0)]) \<and>
   has ''foo'' (run (options None None None value_of) [Set ''foo'' (JNum 0), Delete ''foo''])"
  by code_simp

text \<open>
  Claim C4: for a key absent from the table, a failing loader makes \<open>get\<close> fail with the
  loader's error, and leaves the cache as it was: no entry, no timer, no call of the removal
  listener. The only trace is the call of the loader itself.
\<close>

theorem get_loader_failure:
  assumes "map_of (cache s) k = None" and "loader opts (loader_calls s) k = Inl e"
  shows "get opts k s = (Inl e, s\<lparr>loader_calls := loader_calls s @ [k]\<rparr>)"
  using assms by (simp add: get_def load_def map_get_def Let_def)

theorem get_loader_failure_witness:
  "map_of (cache (run (options None None None can_not_load) [Set ''bar'' (JNum 1)])) ''foo'' = None \<and>
   loader (options None None None can_not_load)
     (loader_calls (run (options None None None can_not_load) [Set ''bar'' (JNum 1)])) ''foo'' =
     Inl (LoaderError ''can not load foo'') \<and>
   get (options None None None can_not_load) ''foo''
     (run (options None None None can_not_load) [Set ''bar'' (JNum 1)]) =
   (Inl (LoaderError ''can not load foo''),
    (run (options None None None can_not_load) [Set ''bar'' (JNum 1)])
      \<lparr>loader_calls :=
         loader_calls (run (options None None None can_not_load) [Set ''bar'' (JNum 1)]) @ [''foo'']\<rparr>)"
proof -
  have h1: "map_of (cache (run (options None None None can_not_load) [Set ''bar'' (JNum 1)])) ''foo''
      = None"
    by code_simp
  have h2: "loader (options None None None can_not_load)
     (loader_calls (run (options None None None can_not_load) [Set ''bar'' (JNum 1)])) ''foo'' =
     Inl (LoaderError ''can not load foo'')"
    by code_simp
  show ?thesis using h1 h2 get_loader_failure [OF h1 h2] by simp
qed

text \<open>
  Claim C5: after every sequence of \<open>get\<close>, \<open>set\<close>, \<open>delete\<close>, \<open>clear\<close> and timer firings,
  at most one timer is armed for each key and role; arming a timer for a key and role leaves
  the new timer as the only one of that pair, and a removal leaves no timer armed for the key.
\<close>

theorem one_timer_per_key_and_role:
  "length (timers_of k r (run opts evs)) \<le> 1 \<and>
   (\<forall>d. duration opts r = Some d \<and> 0 < d \<longrightarrow>
      timers_of k r (maybeSetTimer r opts k (run opts evs)) =
        [\<lparr>tm_handle = next_handle (run opts evs), tm_due = clock (run opts evs) + timer_delay d,
          tm_delay = timer_delay d, tm_key = k, tm_role = r\<rparr>]) \<and>
   (fst (removeWithCause opts k c (run opts evs)) \<longrightarrow>
      (\<forall>r'. timers_of k r' (snd (removeWithCause opts k c (run opts evs))) = []))"
proof (intro conjI allI impI)
  show "length (timers_of k r (run opts evs)) \<le> 1"
    by (rule timers_ok_at_most_one [OF timers_ok_run])
next
  fix d assume "duration opts r = Some d \<and> 0 < d"
  then show "timers_of k r (maybeSetTimer r opts k (run opts evs)) =
      [\<lparr>tm_handle = next_handle (run opts evs), tm_due = clock (run opts evs) + timer_delay d,
        tm_delay = timer_delay d, tm_key = k, tm_role = r\<rparr>]"
    by (simp add: maybeSetTimer_timers_of [OF timers_ok_run])
next
  fix r' assume "fst (removeWithCause opts k c (run opts evs))"
  then show "timers_of k r' (snd (removeWithCause opts k c (run opts evs))) = []"
    by (rule removeWithCause_timers_of [OF timers_ok_run])
qed

theorem one_timer_per_key_and_role_witness:
  "duration (options (Some 5) (Some 3) None value_of) WriteExpiry = Some 5 \<and>
   fst (removeWithCause (options (Some 5) (Some 3) None value_of) ''foo'' EXPLICIT_DELETE
     (run (options (Some 5) (Some 3) None value_of) [Get ''foo'', Set ''foo'' (JNum 7)])) \<and>
   length (timers_of ''foo'' WriteExpiry
     (run (options (Some 5) (Some 3) None value_of) [Get ''foo'', Set ''foo'' (JNum 7)])) \<le> 1 \<and>
   timers_of ''foo'' WriteExpiry (maybeSetTimer WriteExpiry (options (Some 5) (Some 3) None value_of)
     ''foo'' (run (options (Some 5) (Some 3) None value_of) [Get ''foo'', Set ''foo'' (JNum 7)])) =
     [\<lparr>tm_handle = next_handle
          (run (options (Some 5) (Some 3) None value_of) [Get ''foo'', Set ''foo'' (JNum 7)]),
       tm_due = clock
          (run (options (Some 5) (Some 3) None value_of) [Get ''foo'', Set ''foo'' (JNum 7)]) + 5,
       tm_delay = 5, tm_key = ''foo'', tm_role = WriteExpiry\<rparr>] \<and>
   timers_of ''foo'' AccessExpiry
     (snd (removeWithCause (options (Some 5) (Some 3) None value_of) ''foo'' EXPLICIT_DELETE
       (run (options (Some 5) (Some 3) None value_of) [Get ''foo'', Set ''foo'' (JNum 7)]))) = []"
proof -
  have h1: "duration (options (Some 5) (Some 3) None value_of) WriteExpiry = Some 5"
    by (simp add: duration_def options_def)
  have h2: "fst (removeWithCause (options (Some 5) (Some 3) None value_of) ''foo'' EXPLICIT_DELETE
     (run (options (Some 5) (Some 3) None value_of) [Get ''foo'', Set ''foo'' (JNum 7)]))"
    by (simp add: eval_defs)
  show ?thesis
    using h1 h2 one_timer_per_key_and_role [of "''foo''" WriteExpiry
      "options (Some 5) (Some 3) None value_of" "[Get ''foo'', Set ''foo'' (JNum 7)]"
      EXPLICIT_DELETE]
    by (simp add: timer_delay_def TIMEOUT_MAX_def)
qed




text \<open>
  Claim C7: \<open>clear\<close> empties the table: afterwards \<open>size\<close> is 0 and \<open>has\<close> is false for every
  key, and the removal listener has not been called.
\<close>

theorem clear_empties_table:
  "size_cache (clear s) = 0 \<and> \<not> has k (clear s) \<and> removed (clear s) = removed s"
  by (simp add: size_cache_def clear_def has_def)

text \<open>
  Claim C8: an entry whose stored value is falsy is present for \<open>has\<close> but absent for the
  paths that test the value: \<open>get\<close> calls the loader again, \<open>delete\<close> returns false and
  changes nothing (the entry and its timers stay), and \<open>set\<close> over it does not call the
  removal listener.
\<close>

theorem falsy_value_treated_as_absent:
  assumes "map_of (cache s) k = Some v" and "\<not> truthy v"
  shows "has k s \<and>
         loader_calls (snd (get opts k s)) = loader_calls s @ [k] \<and>
         delete_cache opts k s = (False, s) \<and>
         removed (set_cache opts k v2 s) = removed s"
  using assms
  by (simp add: has_def get_def load_def map_get_def Let_def delete_cache_def removeWithCause_def
     removed_set_cache maybeSet_defs split: sum.splits)

theorem falsy_value_treated_as_absent_witness:
  "map_of (cache (run (options (Some 5) None None value_of) [Set ''foo'' (JStr '''')])) ''foo'' =
     Some (JStr '''') \<and>
   \<not> truthy (JStr '''') \<and>
   has ''foo'' (run (options (Some 5) None None value_of) [Set ''foo'' (JStr '''')]) \<and>
   loader_calls (snd (get (options (Some 5) None None value_of) ''foo''
     (run (options (Some 5) None None value_of) [Set ''foo'' (JStr '''')]))) =
     loader_calls (run (options (Some 5) None None value_of) [Set ''foo'' (JStr '''')]) @ [''foo''] \<and>
   delete_cache (options (Some 5) None None value_of) ''foo''
     (run (options (Some 5) None None value_of) [Set ''foo'' (JStr '''')]) =
     (False, run (options (Some 5) None None value_of) [Set ''foo'' (JStr '''')]) \<and>
   removed (set_cache (options (Some 5) None None value_of) ''foo'' (JStr ''bar'')
     (run (options (Some 5) None None value_of) [Set ''foo'' (JStr '''')])) =
     removed (run (options (Some 5) None None value_of) [Set ''foo'' (JStr '''')])"
proof -
  have h1: "map_of (cache (run (options (Some 5) None None value_of) [Set ''foo'' (JStr '''')]))
      ''foo'' = Some (JStr '''')"
    by (simp add: eval_defs)
  have h2: "\<not> truthy (JStr '''')" by simp
  show ?thesis
    using h1 h2 falsy_value_treated_as_absent [OF h1 h2, of "options (Some 5) None None value_of"
        "JStr ''bar''"]
    by simp
qed



text \<open>
  Claim C10: a duration of 0 disables its role: after any sequence of operations no timer of
  that role is armed, and the cache behaves exactly as with the option omitted.
\<close>

theorem zero_duration_disables_role:
  assumes "duration opts r = Some 0"
  shows "timers_of k r (run opts evs) = [] \<and> run opts evs = run (omitted r opts) evs"
proof -
  have "tm_role t \<noteq> r" if "t \<in> set (armed (run opts evs))" for t
    using timers_enabled_run [of opts evs] that assms
    by (auto simp: timers_enabled_def)
  then have "timers_of k r (run opts evs) = []"
    by (auto simp: timers_of_def filter_empty_conv)
  then show ?thesis using run_omitted [OF assms] by simp
qed

theorem zero_duration_disables_role_witness:
  "duration (options (Some 0) (Some 3) None value_of) WriteExpiry = Some 0 \<and>
   timers_of ''foo'' WriteExpiry
     (run (options (Some 0) (Some 3) None value_of) [Get ''foo'', Set ''foo'' (JNum 7), Tick]) = [] \<and>
   run (options (Some 0) (Some 3) None value_of) [Get ''foo'', Set ''foo'' (JNum 7), Tick] =
   run (omitted WriteExpiry (options (Some 0) (Some 3) None value_of))
     [Get ''foo'', Set ''foo'' (JNum 7), Tick]"
proof -
  have h: "duration (options (Some 0) (Some 3) None value_of) WriteExpiry = Some 0"
    by (simp add: duration_def options_def)
  show ?thesis
    using h zero_duration_disables_role [OF h, of "''foo''" "[Get ''foo'', Set ''foo'' (JNum 7), Tick]"]
    by (rule conjI)
qed

end
